theory Spec2Isabelle
  imports Main
begin

section \<open>The map-backed set of package maps (src/maps/set.go)\<close>

text \<open>
  The Go type is \<^verbatim>\<open>type Set[T comparable] map[T]struct{}\<close>: a map whose values carry
  nothing, so a key is either bound to the one value of \<^typ>\<open>unit\<close> or absent.

  This is the map for keys that equal themselves under \<^verbatim>\<open>==\<close> and for a map that
  \<^verbatim>\<open>make\<close> has allocated, as all the sets are that the constructors and the methods
  return. The section on Go's maps in full has the keys that do not equal themselves, the
  NaN values of floating-point keys, and the nil map, which Go lets one read but not
  write; \<open>run_go_sound\<close> relates the two.
\<close>

type_synonym 'a Set = "'a \<rightharpoonup> unit"

text \<open>
  Go leaves the order of a \<^verbatim>\<open>for v := range s\<close> loop over a map unspecified, and it may
  differ from one loop to the next. Every such loop of the model therefore receives, as
  the argument \<open>ks\<close>, the sequence of keys that this very loop yields; \<open>range_order ks s\<close>
  says what Go does guarantee about it: every key of \<open>s\<close> comes exactly once.
\<close>

definition range_order :: "'a list \<Rightarrow> 'a Set \<Rightarrow> bool" where
  "range_order ks s = (distinct ks \<and> set ks = dom s)"

text \<open>\<^verbatim>\<open>make(Set[T])\<close>: the empty map.\<close>

definition make_Set :: "'a Set" where
  "make_Set = Map.empty"

text \<open>
  The built-in \<^verbatim>\<open>len\<close> of a map is the number of its keys. Go returns it as an
  \<^verbatim>\<open>int\<close>; a count of keys held in memory is far from the bounds of that type, and the
  model counts in \<^typ>\<open>nat\<close>.
\<close>

definition len :: "'a Set \<Rightarrow> nat" where
  "len s = card (dom s)"

text \<open>\<^verbatim>\<open>func (s Set[T]) Len() int { return len(s) }\<close>\<close>

definition Len :: "'a Set \<Rightarrow> nat" where
  "Len s = len s"

text \<open>\<^verbatim>\<open>_, has := s[value]; return has\<close>\<close>

definition Has :: "'a Set \<Rightarrow> 'a \<Rightarrow> bool" where
  "Has s v = (case s v of None \<Rightarrow> False | Some _ \<Rightarrow> True)"

text \<open>
  \<open>Add\<close> and \<open>Remove\<close> write to the map of the receiver: each returns its result together
  with the map after the call.
\<close>

definition Add :: "'a Set \<Rightarrow> 'a \<Rightarrow> bool \<times> 'a Set" where
  "Add s v = (if Has s v then (False, s) else (True, s(v \<mapsto> ())))"

definition Remove :: "'a Set \<Rightarrow> 'a \<Rightarrow> bool \<times> 'a Set" where
  "Remove s v = (if \<not> Has s v then (False, s) else (True, s(v := None)))"

text \<open>
  \<open>Range\<close> calls the visitor for the keys in the order of the loop and breaks as soon as
  the visitor returns false. A Go visitor is a closure that updates the variables it has
  captured; here it takes their values and returns its verdict with the updated values.
\<close>

fun Range :: "'a list \<Rightarrow> 'a Set \<Rightarrow> ('a \<Rightarrow> 'st \<Rightarrow> bool \<times> 'st) \<Rightarrow> 'st \<Rightarrow> 'st" where
  "Range [] s f st = st"
| "Range (v # ks) s f st =
     (case f v st of (continue, st') \<Rightarrow> if \<not> continue then st' else Range ks s f st')"

text \<open>
  Modelled from the spec: the interface \<^verbatim>\<open>sets.Set[T]\<close>, the type of the operands and of
  the results of the methods below; package sets, which declares it, is not among the
  sources. The contract of the spec gives it the methods of the map-backed set, which
  is the one implementation the sources hold: a value of the interface is a map-backed
  set, and a call through the interface is a call of the method of that name.
\<close>

type_synonym 'a sets_Set = "'a Set"

definition AddSet :: "'a Set \<Rightarrow> 'a list \<Rightarrow> 'a sets_Set \<Rightarrow> nat \<times> 'a Set" where
  "AddSet s ko other =
     (case Range ko other
        (\<lambda>v (s, added). case Add s v of
           (ok, s') \<Rightarrow> (True, (s', if ok then added + 1 else added)))
        (s, 0)
      of (s', added) \<Rightarrow> (added, s'))"

definition RemoveSet :: "'a Set \<Rightarrow> 'a list \<Rightarrow> 'a sets_Set \<Rightarrow> nat \<times> 'a Set" where
  "RemoveSet s ko other =
     (case Range ko other
        (\<lambda>v (s, removed). case Remove s v of
           (ok, s') \<Rightarrow> (True, (s', if ok then removed + 1 else removed)))
        (s, 0)
      of (s', removed) \<Rightarrow> (removed, s'))"

text \<open>
  The loops over the receiver: \<open>ks\<close> is the order of the loop over \<open>s\<close>, and \<open>ko\<close> that
  of the traversal of \<open>other\<close>. The map a loop builds is the accumulator of the fold.
\<close>

definition Clone :: "'a list \<Rightarrow> 'a Set \<Rightarrow> 'a sets_Set" where
  "Clone ks s = fold (\<lambda>v clone. snd (Add clone v)) ks make_Set"

text \<open>
  \<open>Slice\<close> appends to an empty slice of capacity \<^verbatim>\<open>len(s)\<close>; the capacity is not
  observable in the result.
\<close>

definition Slice :: "'a list \<Rightarrow> 'a Set \<Rightarrow> 'a list" where
  "Slice ks s = fold (\<lambda>v result. result @ [v]) ks []"

definition Intersect :: "'a list \<Rightarrow> 'a Set \<Rightarrow> 'a sets_Set \<Rightarrow> 'a sets_Set" where
  "Intersect ks s other =
     fold (\<lambda>v result. if Has other v then snd (Add result v) else result) ks make_Set"

definition Union :: "'a list \<Rightarrow> 'a list \<Rightarrow> 'a Set \<Rightarrow> 'a sets_Set \<Rightarrow> 'a sets_Set" where
  "Union ks ko s other = (let result = Clone ks s in snd (AddSet result ko other))"

definition SetDiff :: "'a list \<Rightarrow> 'a Set \<Rightarrow> 'a sets_Set \<Rightarrow> 'a sets_Set" where
  "SetDiff ks s other =
     fold (\<lambda>v result. if \<not> Has other v then snd (Add result v) else result) ks make_Set"

definition SymDiff :: "'a list \<Rightarrow> 'a list \<Rightarrow> 'a Set \<Rightarrow> 'a sets_Set \<Rightarrow> 'a sets_Set" where
  "SymDiff ks ko s other =
     (let result = SetDiff ks s other
      in Range ko other
           (\<lambda>v result. (True, if \<not> Has s v then snd (Add result v) else result))
           result)"

text \<open>\<open>NewSetFromSlice\<close> loops over a slice, whose order is that of the slice.\<close>

definition NewSetFromSlice :: "'a list \<Rightarrow> 'a sets_Set" where
  "NewSetFromSlice slice = fold (\<lambda>v set'. snd (Add set' v)) slice make_Set"

section \<open>The free-standing set of package typ (src/set.go)\<close>

text \<open>
  Package typ declares the same type under the same name and gives its methods
  partly the same names; they carry the prefix \<open>typ_\<close> here. \<open>Set\<close> and \<open>Unset\<close> are its
  names for \<open>Add\<close> and \<open>Remove\<close>.
\<close>

definition typ_Has :: "'a Set \<Rightarrow> 'a \<Rightarrow> bool" where
  "typ_Has s v = (case s v of None \<Rightarrow> False | Some _ \<Rightarrow> True)"

definition typ_Set :: "'a Set \<Rightarrow> 'a \<Rightarrow> bool \<times> 'a Set" where
  "typ_Set s v = (if typ_Has s v then (False, s) else (True, s(v \<mapsto> ())))"

definition typ_Unset :: "'a Set \<Rightarrow> 'a \<Rightarrow> bool \<times> 'a Set" where
  "typ_Unset s v = (if \<not> typ_Has s v then (False, s) else (True, s(v := None)))"

text \<open>
  The other methods of package typ follow; \<open>Union\<close> and \<open>SymDiff\<close> loop over the
  operand's map themselves, where package maps goes through \<open>AddSet\<close> and \<open>Range\<close>.
\<close>

definition typ_Clone :: "'a list \<Rightarrow> 'a Set \<Rightarrow> 'a Set" where
  "typ_Clone ks s = fold (\<lambda>v clone. snd (typ_Set clone v)) ks make_Set"

definition typ_Slice :: "'a list \<Rightarrow> 'a Set \<Rightarrow> 'a list" where
  "typ_Slice ks s = fold (\<lambda>v result. result @ [v]) ks []"

definition typ_Intersect :: "'a list \<Rightarrow> 'a Set \<Rightarrow> 'a Set \<Rightarrow> 'a Set" where
  "typ_Intersect ks s other =
     fold (\<lambda>v result. if typ_Has other v then snd (typ_Set result v) else result) ks make_Set"

definition typ_Union :: "'a list \<Rightarrow> 'a list \<Rightarrow> 'a Set \<Rightarrow> 'a Set \<Rightarrow> 'a Set" where
  "typ_Union ks ko s other =
     (let result = typ_Clone ks s
      in fold (\<lambda>v result. snd (typ_Set result v)) ko result)"

definition typ_SetDiff :: "'a list \<Rightarrow> 'a Set \<Rightarrow> 'a Set \<Rightarrow> 'a Set" where
  "typ_SetDiff ks s other =
     fold (\<lambda>v result. if \<not> typ_Has other v then snd (typ_Set result v) else result) ks make_Set"

definition typ_SymDiff :: "'a list \<Rightarrow> 'a list \<Rightarrow> 'a Set \<Rightarrow> 'a Set \<Rightarrow> 'a Set" where
  "typ_SymDiff ks ko s other =
     (let result = fold (\<lambda>v result. if \<not> typ_Has other v then snd (typ_Set result v) else result)
                     ks make_Set
      in fold (\<lambda>v result. if \<not> typ_Has s v then snd (typ_Set result v) else result)
           ko result)"

text \<open>
  \<^verbatim>\<open>type SetProduct[TA comparable, TB comparable] struct { A TA; B TB }\<close>
\<close>

record ('ta, 'tb) SetProduct =
  A :: 'ta
  B :: 'tb

text \<open>
  \<open>CartesianProduct\<close> runs the loop over \<open>b\<close> once for every value of \<open>a\<close>, and Go may
  yield the keys of \<open>b\<close> in another order each time: \<open>kb valueA\<close> is the order of the
  inner loop that runs for \<open>valueA\<close>.
\<close>

definition CartesianProduct ::
    "'ta list \<Rightarrow> ('ta \<Rightarrow> 'tb list) \<Rightarrow> 'ta Set \<Rightarrow> 'tb Set \<Rightarrow> ('ta, 'tb) SetProduct Set" where
  "CartesianProduct ka kb a b =
     fold (\<lambda>valueA result.
             fold (\<lambda>valueB result. snd (typ_Set result \<lparr>A = valueA, B = valueB\<rparr>))
               (kb valueA) result)
       ka make_Set"

section \<open>The methods written with Range alone\<close>

text \<open>
  What the spec describes: \<open>Slice\<close> and the algebra methods collecting the elements of
  the receiver through \<open>Range\<close> only, with a visitor that always returns true.
\<close>

definition Clone_by_Range :: "'a list \<Rightarrow> 'a Set \<Rightarrow> 'a Set" where
  "Clone_by_Range ks s = Range ks s (\<lambda>v clone. (True, snd (Add clone v))) make_Set"

definition Slice_by_Range :: "'a list \<Rightarrow> 'a Set \<Rightarrow> 'a list" where
  "Slice_by_Range ks s = Range ks s (\<lambda>v result. (True, result @ [v])) []"

definition Intersect_by_Range :: "'a list \<Rightarrow> 'a Set \<Rightarrow> 'a Set \<Rightarrow> 'a Set" where
  "Intersect_by_Range ks s other =
     Range ks s (\<lambda>v result. (True, if Has other v then snd (Add result v) else result)) make_Set"

definition Union_by_Range :: "'a list \<Rightarrow> 'a list \<Rightarrow> 'a Set \<Rightarrow> 'a Set \<Rightarrow> 'a Set" where
  "Union_by_Range ks ko s other =
     Range ko other (\<lambda>v result. (True, snd (Add result v))) (Clone_by_Range ks s)"

definition SetDiff_by_Range :: "'a list \<Rightarrow> 'a Set \<Rightarrow> 'a Set \<Rightarrow> 'a Set" where
  "SetDiff_by_Range ks s other =
     Range ks s (\<lambda>v result. (True, if \<not> Has other v then snd (Add result v) else result)) make_Set"

definition SymDiff_by_Range :: "'a list \<Rightarrow> 'a list \<Rightarrow> 'a Set \<Rightarrow> 'a Set \<Rightarrow> 'a Set" where
  "SymDiff_by_Range ks ko s other =
     (let result = SetDiff_by_Range ks s other
      in Range ko other
           (\<lambda>v result. (True, if \<not> Has s v then snd (Add result v) else result))
           result)"

section \<open>Histories of operations and observing visitors\<close>

text \<open>
  A history of \<open>Add\<close> and \<open>Remove\<close> calls on one set, and the set it leaves.
\<close>

datatype 'a operation = OpAdd 'a | OpRemove 'a

fun apply_operation :: "'a Set \<Rightarrow> 'a operation \<Rightarrow> 'a Set" where
  "apply_operation s (OpAdd v) = snd (Add s v)"
| "apply_operation s (OpRemove v) = snd (Remove s v)"

definition run :: "'a Set \<Rightarrow> 'a operation list \<Rightarrow> 'a Set" where
  "run s ops = foldl apply_operation s ops"

text \<open>
  What the spec counts: \<open>kept ops v\<close> holds when the history adds \<open>v\<close> at some point and
  does not remove it after that; \<open>added_values\<close> lists the values the history adds.
\<close>

fun kept :: "'a operation list \<Rightarrow> 'a \<Rightarrow> bool" where
  "kept [] v = False"
| "kept (OpAdd w # ops) v = ((w = v \<and> OpRemove v \<notin> set ops) \<or> kept ops v)"
| "kept (OpRemove w # ops) v = kept ops v"

fun added_values :: "'a operation list \<Rightarrow> 'a list" where
  "added_values [] = []"
| "added_values (OpAdd w # ops) = w # added_values ops"
| "added_values (OpRemove w # ops) = added_values ops"

text \<open>
  \<open>logging f\<close> is the visitor \<open>f\<close> that also appends every value it is called with to a
  list, so that the list a traversal returns is the sequence of its calls of the visitor.
\<close>

definition logging :: "('a \<Rightarrow> 'st \<Rightarrow> bool \<times> 'st) \<Rightarrow> 'a \<Rightarrow> 'a list \<times> 'st \<Rightarrow> bool \<times> 'a list \<times> 'st" where
  "logging f v = (\<lambda>(visited, st). case f v st of (continue, st') \<Rightarrow> (continue, (visited @ [v], st')))"

section \<open>Sets as references to maps\<close>

text \<open>
  A Go map value is a reference: \<open>make\<close> allocates a map, and a method that writes to its
  receiver writes to the one map that every copy of the value shares. Where a property is
  about which maps a call writes to, the maps live in a heap, the list of the maps
  allocated so far, and a set is the index of its map. The methods below are the same Go
  methods, read with their writes in place.
\<close>

type_synonym ref = nat

type_synonym 'a heap = "'a Set list"

text \<open>\<open>make\<close> puts a new, empty map behind the maps that exist.\<close>

definition make_ref :: "'a heap \<Rightarrow> ref \<times> 'a heap" where
  "make_ref h = (length h, h @ [make_Set])"

definition Has_ref :: "'a heap \<Rightarrow> ref \<Rightarrow> 'a \<Rightarrow> bool" where
  "Has_ref h s v = (case (h ! s) v of None \<Rightarrow> False | Some _ \<Rightarrow> True)"

definition Add_ref :: "'a heap \<Rightarrow> ref \<Rightarrow> 'a \<Rightarrow> bool \<times> 'a heap" where
  "Add_ref h s v =
     (if Has_ref h s v then (False, h) else (True, h[s := (h ! s)(v \<mapsto> ())]))"

definition Remove_ref :: "'a heap \<Rightarrow> ref \<Rightarrow> 'a \<Rightarrow> bool \<times> 'a heap" where
  "Remove_ref h s v =
     (if \<not> Has_ref h s v then (False, h) else (True, h[s := (h ! s)(v := None)]))"

definition AddSet_ref :: "'a heap \<Rightarrow> ref \<Rightarrow> 'a list \<Rightarrow> ref \<Rightarrow> nat \<times> 'a heap" where
  "AddSet_ref h s ko other =
     (case Range ko (h ! other)
        (\<lambda>v (h, added). case Add_ref h s v of
           (ok, h') \<Rightarrow> (True, (h', if ok then added + 1 else added)))
        (h, 0)
      of (h', added) \<Rightarrow> (added, h'))"

definition Clone_ref :: "'a list \<Rightarrow> 'a heap \<Rightarrow> ref \<Rightarrow> ref \<times> 'a heap" where
  "Clone_ref ks h s =
     (case make_ref h of
        (clone, h) \<Rightarrow> (clone, fold (\<lambda>v h. snd (Add_ref h clone v)) ks h))"

definition Intersect_ref :: "'a list \<Rightarrow> 'a heap \<Rightarrow> ref \<Rightarrow> ref \<Rightarrow> ref \<times> 'a heap" where
  "Intersect_ref ks h s other =
     (case make_ref h of
        (result, h) \<Rightarrow>
          (result,
           fold (\<lambda>v h. if Has_ref h other v then snd (Add_ref h result v) else h) ks h))"

definition Union_ref :: "'a list \<Rightarrow> 'a list \<Rightarrow> 'a heap \<Rightarrow> ref \<Rightarrow> ref \<Rightarrow> ref \<times> 'a heap" where
  "Union_ref ks ko h s other =
     (case Clone_ref ks h s of
        (result, h) \<Rightarrow> (result, snd (AddSet_ref h result ko other)))"

definition SetDiff_ref :: "'a list \<Rightarrow> 'a heap \<Rightarrow> ref \<Rightarrow> ref \<Rightarrow> ref \<times> 'a heap" where
  "SetDiff_ref ks h s other =
     (case make_ref h of
        (result, h) \<Rightarrow>
          (result,
           fold (\<lambda>v h. if \<not> Has_ref h other v then snd (Add_ref h result v) else h) ks h))"

definition SymDiff_ref :: "'a list \<Rightarrow> 'a list \<Rightarrow> 'a heap \<Rightarrow> ref \<Rightarrow> ref \<Rightarrow> ref \<times> 'a heap" where
  "SymDiff_ref ks ko h s other =
     (case SetDiff_ref ks h s other of
        (result, h) \<Rightarrow>
          (result,
           Range ko (h ! other)
             (\<lambda>v h. (True, if \<not> Has_ref h s v then snd (Add_ref h result v) else h))
             h))"

text \<open>
  The maps of product pairs are maps of another type than the operands' and live in a
  heap of their own, \<open>hp\<close>; the operands are only read.
\<close>

definition typ_Has_ref :: "'a heap \<Rightarrow> ref \<Rightarrow> 'a \<Rightarrow> bool" where
  "typ_Has_ref h s v = (case (h ! s) v of None \<Rightarrow> False | Some _ \<Rightarrow> True)"

definition typ_Set_ref :: "'a heap \<Rightarrow> ref \<Rightarrow> 'a \<Rightarrow> bool \<times> 'a heap" where
  "typ_Set_ref h s v =
     (if typ_Has_ref h s v then (False, h) else (True, h[s := (h ! s)(v \<mapsto> ())]))"

definition CartesianProduct_ref ::
    "'ta list \<Rightarrow> ('ta \<Rightarrow> 'tb list) \<Rightarrow> ('ta, 'tb) SetProduct heap \<Rightarrow> 'ta Set \<Rightarrow> 'tb Set
      \<Rightarrow> ref \<times> ('ta, 'tb) SetProduct heap" where
  "CartesianProduct_ref ka kb hp a b =
     (case make_ref hp of
        (result, hp) \<Rightarrow>
          (result,
           fold (\<lambda>valueA hp.
                   fold (\<lambda>valueB hp. snd (typ_Set_ref hp result \<lparr>A = valueA, B = valueB\<rparr>))
                     (kb valueA) hp)
             ka hp))"

text \<open>A history of \<open>Add\<close> and \<open>Remove\<close> calls on the set \<open>s\<close> of a heap.\<close>

fun apply_operation_ref :: "ref \<Rightarrow> 'a heap \<Rightarrow> 'a operation \<Rightarrow> 'a heap" where
  "apply_operation_ref s h (OpAdd v) = snd (Add_ref h s v)"
| "apply_operation_ref s h (OpRemove v) = snd (Remove_ref h s v)"

definition run_ref :: "'a heap \<Rightarrow> ref \<Rightarrow> 'a operation list \<Rightarrow> 'a heap" where
  "run_ref h s ops = foldl (apply_operation_ref s) h ops"

text \<open>
  A call that returns a set and a heap returns a fresh set when the set is the one map
  that the call has added to the heap and every map that was there before is as it was;
  it leaves its operands unchanged when their maps are.
\<close>

definition fresh_result :: "'a heap \<Rightarrow> ref \<times> 'a heap \<Rightarrow> bool" where
  "fresh_result h res =
     (case res of
        (result, h') \<Rightarrow>
          result = length h \<and> length h' = Suc (length h) \<and> take (length h) h' = h)"

definition operands_unchanged :: "'a heap \<Rightarrow> ref \<Rightarrow> ref \<Rightarrow> ref \<times> 'a heap \<Rightarrow> bool" where
  "operands_unchanged h s other res = (snd res ! s = h ! s \<and> snd res ! other = h ! other)"

section \<open>How the methods reach the elements\<close>

text \<open>
  A method reaches the elements of a set in one of two ways: by a \<^verbatim>\<open>for v := range s\<close>
  statement over the map itself, or by a call of the method \<open>Range\<close> with a visitor.
  The methods of src/maps/set.go are read once more, each traversal adding its kind to a
  list that the method returns with its result.
\<close>

datatype traversal = Map_loop | Range_call

definition map_loop ::
    "'a list \<Rightarrow> 'a Set \<Rightarrow> ('a \<Rightarrow> 'st \<Rightarrow> 'st) \<Rightarrow> traversal list \<times> 'st \<Rightarrow> traversal list \<times> 'st" where
  "map_loop ks s body = (\<lambda>(tr, st). (tr @ [Map_loop], fold body ks st))"

definition Range_traced ::
    "'a list \<Rightarrow> 'a Set \<Rightarrow> ('a \<Rightarrow> 'st \<Rightarrow> bool \<times> 'st) \<Rightarrow> traversal list \<times> 'st
      \<Rightarrow> traversal list \<times> 'st" where
  "Range_traced ks s f = (\<lambda>(tr, st). (tr @ [Range_call], Range ks s f st))"

definition AddSet_traced ::
    "'a Set \<Rightarrow> 'a list \<Rightarrow> 'a sets_Set \<Rightarrow> traversal list \<Rightarrow> traversal list \<times> nat \<times> 'a Set" where
  "AddSet_traced s ko other tr =
     (case Range_traced ko other
        (\<lambda>v (s, added). case Add s v of
           (ok, s') \<Rightarrow> (True, (s', if ok then added + 1 else added)))
        (tr, (s, 0))
      of (tr', (s', added)) \<Rightarrow> (tr', (added, s')))"

definition Clone_traced :: "'a list \<Rightarrow> 'a Set \<Rightarrow> traversal list \<times> 'a sets_Set" where
  "Clone_traced ks s = map_loop ks s (\<lambda>v clone. snd (Add clone v)) ([], make_Set)"

definition Slice_traced :: "'a list \<Rightarrow> 'a Set \<Rightarrow> traversal list \<times> 'a list" where
  "Slice_traced ks s = map_loop ks s (\<lambda>v result. result @ [v]) ([], [])"

definition Intersect_traced ::
    "'a list \<Rightarrow> 'a Set \<Rightarrow> 'a sets_Set \<Rightarrow> traversal list \<times> 'a sets_Set" where
  "Intersect_traced ks s other =
     map_loop ks s (\<lambda>v result. if Has other v then snd (Add result v) else result)
       ([], make_Set)"

definition Union_traced ::
    "'a list \<Rightarrow> 'a list \<Rightarrow> 'a Set \<Rightarrow> 'a sets_Set \<Rightarrow> traversal list \<times> 'a sets_Set" where
  "Union_traced ks ko s other =
     (case Clone_traced ks s of
        (tr, result) \<Rightarrow>
          (case AddSet_traced result ko other tr of
             (tr', (added, result')) \<Rightarrow> (tr', result')))"

definition SetDiff_traced ::
    "'a list \<Rightarrow> 'a Set \<Rightarrow> 'a sets_Set \<Rightarrow> traversal list \<times> 'a sets_Set" where
  "SetDiff_traced ks s other =
     map_loop ks s (\<lambda>v result. if \<not> Has other v then snd (Add result v) else result)
       ([], make_Set)"

definition SymDiff_traced ::
    "'a list \<Rightarrow> 'a list \<Rightarrow> 'a Set \<Rightarrow> 'a sets_Set \<Rightarrow> traversal list \<times> 'a sets_Set" where
  "SymDiff_traced ks ko s other =
     Range_traced ko other
       (\<lambda>v result. (True, if \<not> Has s v then snd (Add result v) else result))
       (SetDiff_traced ks s other)"

text \<open>What the spec describes: every traversal of a method is a call of \<open>Range\<close>.\<close>

definition only_Range :: "traversal list \<Rightarrow> bool" where
  "only_Range tr = list_all (\<lambda>t. t = Range_call) tr"

section \<open>Go's maps in full: keys that do not equal themselves, and the nil map\<close>

text \<open>
  The map of the sections above is Go's map for keys that equal themselves and for a map
  that \<^verbatim>\<open>make\<close> has allocated. Here is the map without those two conditions, for the
  methods whose results depend on them: \<open>Has\<close>, \<open>Add\<close>, \<open>Remove\<close> and \<open>Len\<close>, and \<open>Has\<close>
  and \<open>Set\<close> of package typ.

  A map value is the nil map, the zero value of the type, or a map that \<^verbatim>\<open>make\<close> has
  allocated, given by its entries in the order in which they were assigned.
\<close>

datatype 'a go_map = Nil_map | Made "'a list"

fun entries :: "'a go_map \<Rightarrow> 'a list" where
  "entries Nil_map = []"
| "entries (Made es) = es"

text \<open>The run-time panic of \<^verbatim>\<open>s[value] = struct{}{}\<close> on the nil map.\<close>

datatype panic = Assignment_to_entry_in_nil_map

text \<open>
  A map finds a key with \<^verbatim>\<open>==\<close>. On the comparable types \<^verbatim>\<open>==\<close> is equality, but for
  the values that do not equal themselves, the NaN values of the floating-point types:
  \<open>self_equal v\<close> says that \<^verbatim>\<open>v == v\<close> holds. Values that \<^verbatim>\<open>==\<close> identifies, as the two
  zeros of a floating-point type, are one value here.
\<close>

definition go_eq :: "('a \<Rightarrow> bool) \<Rightarrow> 'a \<Rightarrow> 'a \<Rightarrow> bool" where
  "go_eq self_equal x y = (self_equal x \<and> x = y)"

text \<open>
  The four operations of the language on a map: the lookup \<^verbatim>\<open>_, has := m[k]\<close>, the
  assignment \<^verbatim>\<open>m[k] = struct{}{}\<close>, \<^verbatim>\<open>delete(m, k)\<close> and \<^verbatim>\<open>len(m)\<close>. The nil map is
  read as an empty map, and writing to it panics; a key that does not equal itself is
  never found, so an assignment adds another entry for it and a delete removes none.
\<close>

definition go_lookup :: "('a \<Rightarrow> bool) \<Rightarrow> 'a go_map \<Rightarrow> 'a \<Rightarrow> bool" where
  "go_lookup self_equal m k = list_ex (\<lambda>e. go_eq self_equal e k) (entries m)"

definition go_assign :: "('a \<Rightarrow> bool) \<Rightarrow> 'a go_map \<Rightarrow> 'a \<Rightarrow> panic + 'a go_map" where
  "go_assign self_equal m k =
     (case m of
        Nil_map \<Rightarrow> Inl Assignment_to_entry_in_nil_map
      | Made es \<Rightarrow> Inr (if go_lookup self_equal m k then Made es else Made (es @ [k])))"

definition go_delete :: "('a \<Rightarrow> bool) \<Rightarrow> 'a go_map \<Rightarrow> 'a \<Rightarrow> 'a go_map" where
  "go_delete self_equal m k =
     (case m of
        Nil_map \<Rightarrow> Nil_map
      | Made es \<Rightarrow> Made (filter (\<lambda>e. \<not> go_eq self_equal e k) es))"

definition go_len :: "'a go_map \<Rightarrow> nat" where
  "go_len m = length (entries m)"

text \<open>The methods of src/maps/set.go and src/set.go on these maps.\<close>

definition Len_go :: "'a go_map \<Rightarrow> nat" where
  "Len_go s = go_len s"

definition Has_go :: "('a \<Rightarrow> bool) \<Rightarrow> 'a go_map \<Rightarrow> 'a \<Rightarrow> bool" where
  "Has_go self_equal s v = go_lookup self_equal s v"

definition Add_go :: "('a \<Rightarrow> bool) \<Rightarrow> 'a go_map \<Rightarrow> 'a \<Rightarrow> panic + bool \<times> 'a go_map" where
  "Add_go self_equal s v =
     (if Has_go self_equal s v then Inr (False, s)
      else case go_assign self_equal s v of
             Inl e \<Rightarrow> Inl e
           | Inr s' \<Rightarrow> Inr (True, s'))"

definition Remove_go :: "('a \<Rightarrow> bool) \<Rightarrow> 'a go_map \<Rightarrow> 'a \<Rightarrow> bool \<times> 'a go_map" where
  "Remove_go self_equal s v =
     (if \<not> Has_go self_equal s v then (False, s)
      else (True, go_delete self_equal s v))"

definition typ_Has_go :: "('a \<Rightarrow> bool) \<Rightarrow> 'a go_map \<Rightarrow> 'a \<Rightarrow> bool" where
  "typ_Has_go self_equal s v = go_lookup self_equal s v"

definition typ_Set_go :: "('a \<Rightarrow> bool) \<Rightarrow> 'a go_map \<Rightarrow> 'a \<Rightarrow> panic + bool \<times> 'a go_map" where
  "typ_Set_go self_equal s v =
     (if typ_Has_go self_equal s v then Inr (False, s)
      else case go_assign self_equal s v of
             Inl e \<Rightarrow> Inl e
           | Inr s' \<Rightarrow> Inr (True, s'))"

text \<open>A history of \<open>Add\<close> and \<open>Remove\<close> calls stops at the first panic.\<close>

fun apply_operation_go ::
    "('a \<Rightarrow> bool) \<Rightarrow> 'a go_map \<Rightarrow> 'a operation \<Rightarrow> panic + 'a go_map" where
  "apply_operation_go self_equal s (OpAdd v) =
     (case Add_go self_equal s v of Inl e \<Rightarrow> Inl e | Inr (added, s') \<Rightarrow> Inr s')"
| "apply_operation_go self_equal s (OpRemove v) = Inr (snd (Remove_go self_equal s v))"

fun run_go :: "('a \<Rightarrow> bool) \<Rightarrow> 'a go_map \<Rightarrow> 'a operation list \<Rightarrow> panic + 'a go_map" where
  "run_go self_equal s [] = Inr s"
| "run_go self_equal s (x # ops) =
     (case apply_operation_go self_equal s x of
        Inl e \<Rightarrow> Inl e
      | Inr s' \<Rightarrow> run_go self_equal s' ops)"

text \<open>
  The keys of a \<^verbatim>\<open>Set[float64]\<close> that the examples need: NaN and the whole numbers.
\<close>

datatype float64 = NaN | Finite int

fun float64_self_equal :: "float64 \<Rightarrow> bool" where
  "float64_self_equal NaN = False"
| "float64_self_equal (Finite i) = True"

text \<open>
  The map of the first section that a map of this section stands for, and the maps for
  which it does: made, with entries that equal themselves, each stored once.
\<close>

definition contents :: "'a go_map \<Rightarrow> 'a Set" where
  "contents s = (\<lambda>v. if v \<in> set (entries s) then Some () else None)"

fun made_sound :: "('a \<Rightarrow> bool) \<Rightarrow> 'a go_map \<Rightarrow> bool" where
  "made_sound self_equal Nil_map = False"
| "made_sound self_equal (Made es) = (distinct es \<and> list_all self_equal es)"

section \<open>The sets of the spec's scenarios\<close>

definition A123 :: "int Set" where
  "A123 = [1 \<mapsto> (), 2 \<mapsto> (), 3 \<mapsto> ()]"

definition B345 :: "int Set" where
  "B345 = [3 \<mapsto> (), 4 \<mapsto> (), 5 \<mapsto> ()]"

definition Babc :: "char Set" where
  "Babc = [CHR ''a'' \<mapsto> (), CHR ''b'' \<mapsto> (), CHR ''c'' \<mapsto> ()]"

text \<open>Orders for the inner loop of \<open>CartesianProduct\<close> that differ from run to run.\<close>

definition inner_orders :: "int \<Rightarrow> char list" where
  "inner_orders x = (if x = 2 then [CHR ''c'', CHR ''a'', CHR ''b'']
                     else [CHR ''a'', CHR ''b'', CHR ''c''])"

section \<open>Basic facts\<close>

lemma Has_dom: "Has s v \<longleftrightarrow> v \<in> dom s"
  by (auto simp: Has_def split: option.splits)

lemma typ_Has_dom: "typ_Has s v \<longleftrightarrow> v \<in> dom s"
  by (auto simp: typ_Has_def split: option.splits)

lemma unit_map_eqI: "dom m = dom m' \<Longrightarrow> m = (m' :: 'a Set)"
proof (rule ext)
  fix x
  assume "dom m = dom m'"
  then have "x \<in> dom m \<longleftrightarrow> x \<in> dom m'"
    by simp
  then show "m x = m' x"
    by (cases "m x"; cases "m' x") (auto simp: dom_def)
qed

lemma dom_Add: "dom (snd (Add s v)) = insert v (dom s)"
  by (auto simp: Add_def Has_dom)

lemma dom_Remove: "dom (snd (Remove s v)) = dom s - {v}"
  by (auto simp: Remove_def Has_dom)

lemma dom_make: "dom make_Set = {}"
  by (simp add: make_Set_def)

lemma typ_Has_eq: "typ_Has s v = Has s v"
  by (simp add: typ_Has_def Has_def)

lemma typ_Set_eq: "typ_Set s v = Add s v"
  by (simp add: typ_Set_def Add_def typ_Has_eq)

lemma typ_Unset_eq: "typ_Unset s v = Remove s v"
  by (simp add: typ_Unset_def Remove_def typ_Has_eq)

lemma dom_fold_Add_if:
  "dom (fold (\<lambda>v r. if P v then snd (Add r v) else r) ks acc) = dom acc \<union> {v \<in> set ks. P v}"
  by (induction ks arbitrary: acc) (auto simp: dom_Add)

lemma dom_fold_Add: "dom (fold (\<lambda>v r. snd (Add r v)) ks acc) = dom acc \<union> set ks"
  using dom_fold_Add_if [of "\<lambda>_. True" ks acc] by simp

lemma Range_continue: "Range ks s (\<lambda>v st. (True, g v st)) st = fold g ks st"
  by (induction ks arbitrary: st) auto

lemma AddSet_fold: "snd (AddSet s ko other) = fold (\<lambda>v r. snd (Add r v)) ko s"
proof -
  have "fst (Range ko other
        (\<lambda>v (s, added). case Add s v of
           (ok, s') \<Rightarrow> (True, (s', if ok then added + 1 else added)))
        (s, n)) = fold (\<lambda>v r. snd (Add r v)) ko s" for n :: nat
    by (induction ko arbitrary: s n) (simp_all add: case_prod_beta)
  then show ?thesis
    by (simp add: AddSet_def case_prod_beta)
qed

lemma dom_Clone: "dom (Clone ks s) = set ks"
  by (simp add: Clone_def dom_fold_Add dom_make)

lemma dom_Intersect: "dom (Intersect ks s other) = {v \<in> set ks. v \<in> dom other}"
  by (simp add: Intersect_def dom_fold_Add_if dom_make Has_dom)

lemma dom_SetDiff: "dom (SetDiff ks s other) = {v \<in> set ks. v \<notin> dom other}"
  by (simp add: SetDiff_def dom_fold_Add_if dom_make Has_dom)

lemma dom_Union: "dom (Union ks ko s other) = set ks \<union> set ko"
  by (simp add: Union_def AddSet_fold dom_fold_Add dom_Clone)

lemma dom_SymDiff:
  "dom (SymDiff ks ko s other) = {v \<in> set ks. v \<notin> dom other} \<union> {v \<in> set ko. v \<notin> dom s}"
  by (simp add: SymDiff_def Range_continue dom_fold_Add_if dom_SetDiff Has_dom)

lemma Slice_eq: "Slice ks s = ks"
proof -
  have "fold (\<lambda>v result. result @ [v]) ks acc = acc @ ks" for acc
    by (induction ks arbitrary: acc) auto
  then show ?thesis by (simp add: Slice_def)
qed

lemma dom_NewSetFromSlice: "dom (NewSetFromSlice slice) = set slice"
  by (simp add: NewSetFromSlice_def dom_fold_Add dom_make)

lemma distinct_count_list:
  "distinct xs \<Longrightarrow> count_list xs v = (if v \<in> set xs then 1 else 0)"
  by (induction xs) auto

lemma orders_A123: "range_order [1, 2, 3] A123" "range_order [3, 1, 2] A123"
  by (auto simp: range_order_def A123_def)

lemma orders_B345: "range_order [5, 4, 3] B345" "range_order [4, 3, 5] B345"
  by (auto simp: range_order_def B345_def)

section \<open>Union, Intersect and SymDiff commute\<close>

text \<open>
  C3. Whatever orders the loops over the two maps take, in either call, \<open>Union\<close>,
  \<open>Intersect\<close> and \<open>SymDiff\<close> give the same set with the operands swapped. The maps
  carry no values, so equal maps are maps with the same members.
\<close>

theorem algebra_commutes:
  assumes "range_order ks a" and "range_order ko b"
    and "range_order ks' a" and "range_order ko' b"
  shows "Union ks ko a b = Union ko' ks' b a
    \<and> Intersect ks a b = Intersect ko' b a
    \<and> SymDiff ks ko a b = SymDiff ko' ks' b a"
proof (intro conjI)
  show "Union ks ko a b = Union ko' ks' b a"
    using assms by (intro unit_map_eqI) (auto simp: dom_Union range_order_def)
  show "Intersect ks a b = Intersect ko' b a"
    using assms by (intro unit_map_eqI) (auto simp: dom_Intersect range_order_def)
  show "SymDiff ks ko a b = SymDiff ko' ks' b a"
    using assms by (intro unit_map_eqI) (auto simp: dom_SymDiff range_order_def)
qed

theorem algebra_commutes_witness:
  "range_order [1, 2, 3] A123 \<and> range_order [5, 4, 3] B345
   \<and> range_order [3, 1, 2] A123 \<and> range_order [4, 3, 5] B345
   \<and> Union [1, 2, 3] [5, 4, 3] A123 B345 = Union [4, 3, 5] [3, 1, 2] B345 A123
   \<and> Intersect [1, 2, 3] A123 B345 = Intersect [4, 3, 5] B345 A123
   \<and> SymDiff [1, 2, 3] [5, 4, 3] A123 B345 = SymDiff [4, 3, 5] [3, 1, 2] B345 A123"
  using orders_A123 orders_B345
    algebra_commutes [OF orders_A123(1) orders_B345(1) orders_A123(2) orders_B345(2)]
  by simp

section \<open>Add is idempotent\<close>

text \<open>
  C2, for sets that \<^verbatim>\<open>make\<close> has allocated and values that equal themselves. On
  every set, \<open>Add v\<close> returns false and leaves the set as it was when
  the set has \<open>v\<close>. On a set that \<^verbatim>\<open>make\<close> has allocated and for a value that equals
  itself, \<open>Add v\<close> does not panic and returns true exactly when \<open>v\<close> was absent, and a
  second \<open>Add v\<close> right after it returns false and changes nothing. The same holds for
  \<open>Set\<close>, the name of the method in package typ.
\<close>

theorem Add_idempotent_on_made_sets:
  "(Has_go self_equal s v \<longrightarrow> Add_go self_equal s v = Inr (False, s))
   \<and> (self_equal v \<longrightarrow>
        (case Add_go self_equal (Made es) v of
           Inl e \<Rightarrow> False
         | Inr (added, s') \<Rightarrow>
             added = (\<not> Has_go self_equal (Made es) v)
             \<and> Add_go self_equal s' v = Inr (False, s')))
   \<and> (typ_Has_go self_equal s v \<longrightarrow> typ_Set_go self_equal s v = Inr (False, s))
   \<and> (self_equal v \<longrightarrow>
        (case typ_Set_go self_equal (Made es) v of
           Inl e \<Rightarrow> False
         | Inr (added, s') \<Rightarrow>
             added = (\<not> typ_Has_go self_equal (Made es) v)
             \<and> typ_Set_go self_equal s' v = Inr (False, s')))"
  by (simp add: Add_go_def Has_go_def typ_Set_go_def typ_Has_go_def go_lookup_def
      go_assign_def go_eq_def)

theorem Add_idempotent_on_made_sets_witness:
  "Has_go float64_self_equal (Made [Finite 1, Finite 2]) (Finite 2)
   \<and> Add_go float64_self_equal (Made [Finite 1, Finite 2]) (Finite 2)
       = Inr (False, Made [Finite 1, Finite 2])
   \<and> float64_self_equal (Finite 2)
   \<and> Add_go float64_self_equal (Made [Finite 1]) (Finite 2)
       = Inr (True, Made [Finite 1, Finite 2])
   \<and> \<not> Has_go float64_self_equal (Made [Finite 1]) (Finite 2)
   \<and> typ_Has_go float64_self_equal (Made [Finite 1, Finite 2]) (Finite 2)
   \<and> typ_Set_go float64_self_equal (Made [Finite 1, Finite 2]) (Finite 2)
       = Inr (False, Made [Finite 1, Finite 2])
   \<and> typ_Set_go float64_self_equal (Made [Finite 1]) (Finite 2)
       = Inr (True, Made [Finite 1, Finite 2])"
  using Add_idempotent_on_made_sets
      [of float64_self_equal "Made [Finite 1, Finite 2]" "Finite 2" "[Finite 1]"]
  by (simp add: Add_go_def Has_go_def typ_Set_go_def typ_Has_go_def go_lookup_def
      go_assign_def go_eq_def)

text \<open>
  Without the two conditions it fails: \<open>Add\<close> of NaN returns true a second time and adds
  a second entry, and \<open>Add\<close> on the nil map panics.
\<close>

theorem Add_idempotent_counterexample:
  "Add_go float64_self_equal (Made []) NaN = Inr (True, Made [NaN])
   \<and> Add_go float64_self_equal (Made [NaN]) NaN = Inr (True, Made [NaN, NaN])
   \<and> \<not> Has_go float64_self_equal (Made [NaN]) NaN
   \<and> Add_go float64_self_equal Nil_map (Finite 1) = Inl Assignment_to_entry_in_nil_map
   \<and> typ_Set_go float64_self_equal (Made []) NaN = Inr (True, Made [NaN])
   \<and> typ_Set_go float64_self_equal (Made [NaN]) NaN = Inr (True, Made [NaN, NaN])
   \<and> typ_Set_go float64_self_equal Nil_map (Finite 1) = Inl Assignment_to_entry_in_nil_map"
  by (simp add: Add_go_def Has_go_def typ_Set_go_def typ_Has_go_def go_lookup_def
      go_assign_def go_eq_def)

section \<open>SetDiff\<close>

text \<open>
  C4. \<open>SetDiff a b\<close> has exactly the values that \<open>a\<close> has and \<open>b\<close> has not, in both
  packages and under every order of the loop; on the sets {1,2,3} and {3,4,5} of the spec
  it gives {1,2}, and {4,5} the other way round; and the two results differ whenever
  the two differences do.
\<close>

theorem SetDiff_correct:
  assumes "range_order ks a" and "range_order ko b"
    and "range_order k1 A123" and "range_order k2 B345"
  shows "Has (SetDiff ks a b) v = (Has a v \<and> \<not> Has b v)
    \<and> typ_Has (typ_SetDiff ks a b) v = (typ_Has a v \<and> \<not> typ_Has b v)
    \<and> SetDiff k1 A123 B345 = [1 \<mapsto> (), 2 \<mapsto> ()]
    \<and> SetDiff k2 B345 A123 = [4 \<mapsto> (), 5 \<mapsto> ()]
    \<and> (dom a - dom b \<noteq> dom b - dom a \<longrightarrow> SetDiff ks a b \<noteq> SetDiff ko b a)"
proof (intro conjI)
  show 1: "Has (SetDiff ks a b) v = (Has a v \<and> \<not> Has b v)"
    using assms(1) by (auto simp: Has_dom dom_SetDiff range_order_def)
  show "typ_Has (typ_SetDiff ks a b) v = (typ_Has a v \<and> \<not> typ_Has b v)"
    using 1 by (simp add: typ_SetDiff_def SetDiff_def typ_Has_eq typ_Set_eq cong: if_cong)
  show "SetDiff k1 A123 B345 = [1 \<mapsto> (), 2 \<mapsto> ()]"
    using assms(3) by (intro unit_map_eqI) (auto simp: dom_SetDiff range_order_def A123_def B345_def)
  show "SetDiff k2 B345 A123 = [4 \<mapsto> (), 5 \<mapsto> ()]"
    using assms(4) by (intro unit_map_eqI) (auto simp: dom_SetDiff range_order_def A123_def B345_def)
  show "dom a - dom b \<noteq> dom b - dom a \<longrightarrow> SetDiff ks a b \<noteq> SetDiff ko b a"
  proof
    assume d: "dom a - dom b \<noteq> dom b - dom a"
    have "dom (SetDiff ks a b) = dom a - dom b" "dom (SetDiff ko b a) = dom b - dom a"
      using assms(1,2) by (auto simp: dom_SetDiff range_order_def)
    with d show "SetDiff ks a b \<noteq> SetDiff ko b a"
      by metis
  qed
qed

theorem SetDiff_correct_witness:
  "range_order [1, 2, 3] A123 \<and> range_order [5, 4, 3] B345
   \<and> range_order [3, 1, 2] A123 \<and> range_order [4, 3, 5] B345
   \<and> Has (SetDiff [1, 2, 3] A123 B345) 1 \<and> Has A123 1 \<and> \<not> Has B345 1
   \<and> \<not> Has (SetDiff [1, 2, 3] A123 B345) 3 \<and> Has A123 3 \<and> Has B345 3
   \<and> SetDiff [3, 1, 2] A123 B345 = [1 \<mapsto> (), 2 \<mapsto> ()]
   \<and> SetDiff [4, 3, 5] B345 A123 = [4 \<mapsto> (), 5 \<mapsto> ()]
   \<and> dom A123 - dom B345 \<noteq> dom B345 - dom A123
   \<and> SetDiff [1, 2, 3] A123 B345 \<noteq> SetDiff [5, 4, 3] B345 A123"
proof -
  have d: "dom A123 - dom B345 \<noteq> dom B345 - dom A123"
    by (auto simp: A123_def B345_def)
  have h: "Has A123 1" "\<not> Has B345 1" "Has A123 3" "Has B345 3"
    by (simp_all add: Has_def A123_def B345_def)
  show ?thesis
    using d h orders_A123 orders_B345
      SetDiff_correct [OF orders_A123(1) orders_B345(1) orders_A123(2) orders_B345(2), of 1]
      SetDiff_correct [OF orders_A123(1) orders_B345(1) orders_A123(2) orders_B345(2), of 3]
    by simp
qed

section \<open>From a set to a slice and back\<close>

text \<open>
  C6. The set built by \<open>NewSetFromSlice\<close> from \<open>Slice\<close> of a set is that set again: the
  same map, hence the same \<open>Len\<close> and the same answer of \<open>Has\<close> for every value.
\<close>

theorem Slice_round_trip:
  assumes "range_order ks s"
  shows "NewSetFromSlice (Slice ks s) = s
    \<and> Len (NewSetFromSlice (Slice ks s)) = Len s
    \<and> Has (NewSetFromSlice (Slice ks s)) v = Has s v"
proof -
  have "NewSetFromSlice (Slice ks s) = s"
    using assms by (intro unit_map_eqI) (simp add: dom_NewSetFromSlice Slice_eq range_order_def)
  then show ?thesis by simp
qed

theorem Slice_round_trip_witness:
  "range_order [3, 1, 2] A123
   \<and> Slice [3, 1, 2] A123 = [3, 1, 2]
   \<and> NewSetFromSlice (Slice [3, 1, 2] A123) = A123
   \<and> Len (NewSetFromSlice (Slice [3, 1, 2] A123)) = 3
   \<and> Has (NewSetFromSlice (Slice [3, 1, 2] A123)) 2"
proof -
  have "Len A123 = 3" "Has A123 2"
    by (simp_all add: Len_def len_def Has_def A123_def)
  then show ?thesis
    using orders_A123(2) Slice_round_trip [OF orders_A123(2), of 2]
    by (simp add: Slice_def)
qed

section \<open>Histories of Add and Remove\<close>

lemma dom_run:
  "dom (run s ops) = {v. kept ops v \<or> (v \<in> dom s \<and> OpRemove v \<notin> set ops)}"
proof (induction ops arbitrary: s)
  case Nil
  then show ?case by (simp add: run_def)
next
  case (Cons x ops)
  have step: "run s (x # ops) = run (apply_operation s x) ops"
    by (simp add: run_def)
  show ?case
  proof (cases x)
    case (OpAdd w)
    then show ?thesis
      unfolding step Cons.IH by (auto simp: dom_Add)
  next
    case (OpRemove w)
    then show ?thesis
      unfolding step Cons.IH by (auto simp: dom_Remove)
  qed
qed

lemma kept_added: "kept ops v \<Longrightarrow> v \<in> set (added_values ops)"
  by (induction ops v rule: kept.induct) auto

lemma dom_run_empty:
  "dom (run make_Set ops) = set (filter (kept ops) (remdups (added_values ops)))"
  by (auto simp: dom_run dom_make kept_added)

lemma dom_contents: "dom (contents s) = set (entries s)"
  by (auto simp: contents_def split: if_splits)

lemma Has_go_sound:
  "made_sound se s \<Longrightarrow> Has_go se s v = (v \<in> set (entries s))"
  by (cases s) (auto simp: Has_go_def go_lookup_def go_eq_def list_ex_iff list_all_iff)

lemma Add_go_sound:
  assumes "made_sound se s" and "se v"
  shows "Add_go se s v
     = Inr (v \<notin> set (entries s), Made (if v \<in> set (entries s) then entries s else entries s @ [v]))"
  using assms Has_go_sound [OF assms(1), of v]
  by (cases s) (auto simp: Add_go_def go_assign_def Has_go_def)

lemma Remove_go_sound:
  assumes "made_sound se s"
  shows "snd (Remove_go se s v) = Made (filter (\<lambda>e. e \<noteq> v) (entries s))"
proof (cases s)
  case Nil_map
  then show ?thesis using assms by simp
next
  case (Made es)
  have all: "\<forall>e\<in>set es. se e"
    using assms Made by (simp add: list_all_iff)
  then have f: "filter (\<lambda>e. \<not> go_eq se e v) es = filter (\<lambda>e. e \<noteq> v) es"
    by (intro filter_cong) (auto simp: go_eq_def)
  have "v \<notin> set es \<Longrightarrow> filter (\<lambda>e. e \<noteq> v) es = es"
    by (induction es) auto
  then show ?thesis
    using Has_go_sound [OF assms, of v] Made
    by (auto simp: Remove_go_def go_delete_def f)
qed

lemma run_go_sound:
  assumes "made_sound se s" and "list_all se (added_values ops)"
  shows "\<exists>s'. run_go se s ops = Inr s' \<and> made_sound se s'
           \<and> set (entries s') = dom (run (contents s) ops)"
  using assms
proof (induction ops arbitrary: s)
  case Nil
  then show ?case by (simp add: run_def dom_contents)
next
  case (Cons x ops)
  have pure: "run m (x # ops) = run (apply_operation m x) ops" for m :: "'a Set"
    by (simp add: run_def)
  show ?case
  proof (cases x)
    case (OpAdd v)
    define s1 where "s1 = Made (if v \<in> set (entries s) then entries s else entries s @ [v])"
    have v: "se v" and rest: "list_all se (added_values ops)"
      using Cons.prems(2) OpAdd by simp_all
    have add: "Add_go se s v = Inr (v \<notin> set (entries s), s1)"
      unfolding s1_def by (rule Add_go_sound [OF Cons.prems(1) v])
    have sound1: "made_sound se s1"
      using Cons.prems(1) v by (cases s) (auto simp: s1_def)
    have "dom (contents s1) = dom (apply_operation (contents s) x)"
      by (auto simp: OpAdd dom_Add dom_contents s1_def)
    then have c: "contents s1 = apply_operation (contents s) x"
      by (rule unit_map_eqI)
    have e: "run (contents s) (x # ops) = run (contents s1) ops"
      by (simp only: pure c)
    have r: "run_go se s (x # ops) = run_go se s1 ops"
      by (simp add: OpAdd add)
    show ?thesis
      unfolding e r by (rule Cons.IH [OF sound1 rest])
  next
    case (OpRemove v)
    define s1 where "s1 = Made (filter (\<lambda>e. e \<noteq> v) (entries s))"
    have rest: "list_all se (added_values ops)"
      using Cons.prems(2) OpRemove by simp
    have rem: "snd (Remove_go se s v) = s1"
      unfolding s1_def by (rule Remove_go_sound [OF Cons.prems(1)])
    have sound1: "made_sound se s1"
      using Cons.prems(1) by (cases s) (auto simp: s1_def list_all_iff)
    have "dom (contents s1) = dom (apply_operation (contents s) x)"
      by (auto simp: OpRemove dom_Remove dom_contents s1_def)
    then have c: "contents s1 = apply_operation (contents s) x"
      by (rule unit_map_eqI)
    have e: "run (contents s) (x # ops) = run (contents s1) ops"
      by (simp only: pure c)
    have r: "run_go se s (x # ops) = run_go se s1 ops"
      by (simp add: OpRemove rem)
    show ?thesis
      unfolding e r by (rule Cons.IH [OF sound1 rest])
  qed
qed

text \<open>
  C1, for sets that \<^verbatim>\<open>make\<close> has allocated and values that equal themselves. On an
  empty set that \<^verbatim>\<open>make\<close> has allocated, a history of \<open>Add\<close> and
  \<open>Remove\<close> calls that adds only values that equal themselves runs without a panic, and
  after it \<open>Has v\<close> holds exactly for the values that were added and not removed
  afterwards, \<open>Len\<close> is the number of distinct such values, and the map stores every such
  value once and no other value.
\<close>

theorem uniqueness_of_made_sets:
  assumes "list_all self_equal (added_values ops)"
  shows "case run_go self_equal (Made []) ops of
           Inl e \<Rightarrow> False
         | Inr s \<Rightarrow>
             Has_go self_equal s v = kept ops v
             \<and> Len_go s = length (filter (kept ops) (remdups (added_values ops)))
             \<and> count_list (entries s) v = (if kept ops v then 1 else 0)"
proof -
  have "made_sound self_equal (Made [])"
    by simp
  from run_go_sound [OF this assms] obtain s where
    run: "run_go self_equal (Made []) ops = Inr s" and sound: "made_sound self_equal s"
    and mem: "set (entries s) = dom (run (contents (Made [])) ops)"
    by blast
  have "contents (Made []) = (make_Set :: 'a Set)"
    by (simp add: contents_def make_Set_def)
  then have mem': "set (entries s) = dom (run make_Set ops)"
    using mem by simp
  have d: "distinct (entries s)"
    using sound by (cases s) simp_all
  have 1: "Has_go self_equal s v = kept ops v"
    by (simp add: Has_go_sound [OF sound] mem' dom_run dom_make)
  have "length (entries s) = card (set (entries s))"
    using d by (simp add: distinct_card)
  also have "\<dots> = length (filter (kept ops) (remdups (added_values ops)))"
    unfolding mem' dom_run_empty by (rule distinct_card) simp
  finally have 2: "Len_go s = length (filter (kept ops) (remdups (added_values ops)))"
    by (simp add: Len_go_def go_len_def)
  have 3: "count_list (entries s) v = (if kept ops v then 1 else 0)"
    using d by (simp add: distinct_count_list mem' dom_run dom_make)
  show ?thesis
    by (simp add: run 1 2 3)
qed


theorem uniqueness_of_made_sets_witness:
  "list_all float64_self_equal
     (added_values [OpAdd (Finite 1), OpAdd (Finite 2), OpAdd (Finite 1), OpRemove (Finite 2),
        OpAdd (Finite 3), OpRemove NaN])
   \<and> run_go float64_self_equal (Made [])
        [OpAdd (Finite 1), OpAdd (Finite 2), OpAdd (Finite 1), OpRemove (Finite 2),
         OpAdd (Finite 3), OpRemove NaN]
       = Inr (Made [Finite 1, Finite 3])
   \<and> Has_go float64_self_equal (Made [Finite 1, Finite 3]) (Finite 3)
   \<and> kept [OpAdd (Finite 1), OpAdd (Finite 2), OpAdd (Finite 1), OpRemove (Finite 2),
         OpAdd (Finite 3), OpRemove NaN] (Finite 3)
   \<and> Len_go (Made [Finite 1, Finite 3 :: float64]) = 2
   \<and> length (filter
        (kept [OpAdd (Finite 1), OpAdd (Finite 2), OpAdd (Finite 1), OpRemove (Finite 2),
           OpAdd (Finite 3), OpRemove NaN])
        (remdups (added_values [OpAdd (Finite 1), OpAdd (Finite 2), OpAdd (Finite 1),
           OpRemove (Finite 2), OpAdd (Finite 3), OpRemove NaN]))) = 2
   \<and> count_list [Finite 1, Finite 3] (Finite 3) = 1"
proof -
  have a: "list_all float64_self_equal
     (added_values [OpAdd (Finite 1), OpAdd (Finite 2), OpAdd (Finite 1), OpRemove (Finite 2),
        OpAdd (Finite 3), OpRemove NaN])"
    by simp
  have r: "run_go float64_self_equal (Made [])
        [OpAdd (Finite 1), OpAdd (Finite 2), OpAdd (Finite 1), OpRemove (Finite 2),
         OpAdd (Finite 3), OpRemove NaN]
       = Inr (Made [Finite 1, Finite 3])"
    by (simp add: Add_go_def Remove_go_def Has_go_def go_lookup_def go_assign_def
        go_delete_def go_eq_def)
  show ?thesis
    using a r uniqueness_of_made_sets [OF a, of "Finite 3"]
    by (simp add: Len_go_def go_len_def)
qed

text \<open>
  Without the two conditions the invariant fails. Two \<open>Add\<close> calls of NaN leave two
  entries, so \<open>Len\<close> is 2 where one distinct value was added and not removed, and \<open>Has\<close>
  does not find it; and the first \<open>Add\<close> on the nil map, an empty set too, panics.
\<close>

theorem uniqueness_counterexample:
  "run_go float64_self_equal (Made []) [OpAdd NaN, OpAdd NaN] = Inr (Made [NaN, NaN])
   \<and> Len_go (Made [NaN, NaN]) = 2
   \<and> length (filter (kept [OpAdd NaN, OpAdd NaN])
        (remdups (added_values [OpAdd NaN, OpAdd NaN]))) = 1
   \<and> \<not> Has_go float64_self_equal (Made [NaN, NaN]) NaN
   \<and> kept [OpAdd NaN, OpAdd NaN] NaN
   \<and> count_list (entries (Made [NaN, NaN])) NaN = 2
   \<and> run_go float64_self_equal Nil_map [OpAdd (Finite 1)] = Inl Assignment_to_entry_in_nil_map"
  by (simp add: Add_go_def Has_go_def go_lookup_def go_assign_def go_eq_def Len_go_def
      go_len_def)

section \<open>Range and its visitor\<close>

lemma Range_logging_all:
  "\<forall>v st. fst (g v st) \<Longrightarrow> fst (Range ks s (logging g) (acc, st)) = acc @ ks"
  by (induction ks arbitrary: acc st) (simp_all add: logging_def case_prod_beta)

text \<open>
  C8. On a set that is not empty, a visitor that returns false at its first call is called
  once, for one member of the set, whatever the size of the set; a visitor that always
  returns true is called once for every member of the set and for nothing else.
\<close>

theorem Range_early_stop:
  assumes "range_order ks s" and "dom s \<noteq> {}"
  shows "(\<not> fst (f (hd ks) st) \<longrightarrow>
            fst (Range ks s (logging f) ([], st)) = [hd ks] \<and> Has s (hd ks))
    \<and> ((\<forall>v st'. fst (g v st')) \<longrightarrow>
            fst (Range ks s (logging g) ([], st)) = ks
            \<and> length (fst (Range ks s (logging g) ([], st))) = Len s
            \<and> count_list (fst (Range ks s (logging g) ([], st))) v = (if Has s v then 1 else 0))"
proof (intro conjI impI)
  from assms obtain k ks' where ks: "ks = k # ks'"
    by (cases ks) (auto simp: range_order_def)
  assume "\<not> fst (f (hd ks) st)"
  then show "fst (Range ks s (logging f) ([], st)) = [hd ks]"
    by (simp add: ks logging_def case_prod_beta)
  show "Has s (hd ks)"
    using assms(1) by (auto simp: ks Has_dom range_order_def)
next
  assume g: "\<forall>v st'. fst (g v st')"
  then show all: "fst (Range ks s (logging g) ([], st)) = ks"
    using Range_logging_all [of g ks s "[]" st] by simp
  show "length (fst (Range ks s (logging g) ([], st))) = Len s"
    using assms(1) by (simp add: all Len_def len_def range_order_def distinct_card [symmetric])
  show "count_list (fst (Range ks s (logging g) ([], st))) v = (if Has s v then 1 else 0)"
    using assms(1) by (simp add: all Has_dom range_order_def distinct_count_list)
qed

theorem Range_early_stop_witness:
  "range_order [3, 1, 2] A123 \<and> dom A123 \<noteq> {}
   \<and> fst (Range [3, 1, 2] A123 (logging (\<lambda>v n. (False, Suc n))) ([], 0 :: nat)) = [3]
   \<and> Has A123 3
   \<and> fst (Range [3, 1, 2] A123 (logging (\<lambda>v n. (True, Suc n))) ([], 0 :: nat)) = [3, 1, 2]
   \<and> length (fst (Range [3, 1, 2] A123 (logging (\<lambda>v n. (True, Suc n))) ([], 0 :: nat))) = Len A123
   \<and> count_list (fst (Range [3, 1, 2] A123 (logging (\<lambda>v n. (True, Suc n))) ([], 0 :: nat))) 2 = 1
   \<and> count_list (fst (Range [3, 1, 2] A123 (logging (\<lambda>v n. (True, Suc n))) ([], 0 :: nat))) 7 = 0"
proof -
  have ne: "dom A123 \<noteq> {}"
    by (simp add: A123_def)
  have h: "Has A123 2" "\<not> Has A123 7"
    by (simp_all add: Has_def A123_def)
  show ?thesis
    using ne h orders_A123(2)
      Range_early_stop [OF orders_A123(2) ne, of "\<lambda>v n. (False, Suc n)" "0 :: nat"
        "\<lambda>v n. (True, Suc n)" 2]
      Range_early_stop [OF orders_A123(2) ne, of "\<lambda>v n. (False, Suc n)" "0 :: nat"
        "\<lambda>v n. (True, Suc n)" 7]
    by simp
qed

section \<open>Range as the iteration primitive\<close>

lemma by_Range_same_order:
  "Clone_by_Range ks s = Clone ks s"
  "Slice_by_Range ks s = Slice ks s"
  "Intersect_by_Range ks s other = Intersect ks s other"
  "SetDiff_by_Range ks s other = SetDiff ks s other"
  by (simp_all add: Clone_by_Range_def Clone_def Slice_by_Range_def Slice_def
      Intersect_by_Range_def Intersect_def SetDiff_by_Range_def SetDiff_def Range_continue)

lemma by_Range_same_order2:
  "Union_by_Range ks ko s other = Union ks ko s other"
  "SymDiff_by_Range ks ko s other = SymDiff ks ko s other"
  by (simp_all add: Union_by_Range_def Union_def SymDiff_by_Range_def SymDiff_def
      by_Range_same_order AddSet_fold Range_continue)

lemma traced_results:
  "Slice_traced ks s = ([Map_loop], Slice ks s)"
  "Clone_traced ks s = ([Map_loop], Clone ks s)"
  "Intersect_traced ks s other = ([Map_loop], Intersect ks s other)"
  "SetDiff_traced ks s other = ([Map_loop], SetDiff ks s other)"
  by (simp_all add: Slice_traced_def Slice_def Clone_traced_def Clone_def Intersect_traced_def
      Intersect_def SetDiff_traced_def SetDiff_def map_loop_def)

lemma traced_results2:
  "Union_traced ks ko s other = ([Map_loop, Range_call], Union ks ko s other)"
  "SymDiff_traced ks ko s other = ([Map_loop, Range_call], SymDiff ks ko s other)"
  by (simp_all add: Union_traced_def Union_def AddSet_traced_def AddSet_def SymDiff_traced_def
      SymDiff_def Range_traced_def traced_results case_prod_beta)

lemma order_irrelevant:
  assumes "range_order ks s" and "range_order ks' s"
    and "range_order ko other" and "range_order ko' other"
  shows "Clone ks s = Clone ks' s"
    and "set (Slice ks s) = set (Slice ks' s)"
    and "Intersect ks s other = Intersect ks' s other"
    and "SetDiff ks s other = SetDiff ks' s other"
    and "Union ks ko s other = Union ks' ko' s other"
    and "SymDiff ks ko s other = SymDiff ks' ko' s other"
proof -
  show "Clone ks s = Clone ks' s"
    using assms by (intro unit_map_eqI) (simp add: dom_Clone range_order_def)
  show "set (Slice ks s) = set (Slice ks' s)"
    using assms by (simp add: Slice_eq range_order_def)
  show "Intersect ks s other = Intersect ks' s other"
    using assms by (intro unit_map_eqI) (simp add: dom_Intersect range_order_def)
  show "SetDiff ks s other = SetDiff ks' s other"
    using assms by (intro unit_map_eqI) (simp add: dom_SetDiff range_order_def)
  show "Union ks ko s other = Union ks' ko' s other"
    using assms by (intro unit_map_eqI) (simp add: dom_Union range_order_def)
  show "SymDiff ks ko s other = SymDiff ks' ko' s other"
    using assms by (intro unit_map_eqI) (simp add: dom_SymDiff range_order_def)
qed

text \<open>
  C9, with the receiver looped over and the operand ranged. \<open>Slice\<close>, \<open>Intersect\<close> and \<open>SetDiff\<close> reach the elements of the
  receiver by one loop over its map and call \<open>Range\<close> on nothing; \<open>Union\<close> and \<open>SymDiff\<close>
  loop over the map of the receiver and then traverse the operand by one call of its
  \<open>Range\<close>. What they return is what the same methods return when they collect the
  elements through \<open>Range\<close> alone, under any orders of the traversals: the members of
  the receiver for \<open>Slice\<close>, and the intersection, the union, the difference and the
  symmetric difference of the two sets.
\<close>

theorem receiver_looped_operand_ranged:
  assumes "range_order ks s" and "range_order ks' s"
    and "range_order ko other" and "range_order ko' other"
  shows "Slice_traced ks s = ([Map_loop], Slice ks s)
    \<and> Intersect_traced ks s other = ([Map_loop], Intersect ks s other)
    \<and> Union_traced ks ko s other = ([Map_loop, Range_call], Union ks ko s other)
    \<and> SetDiff_traced ks s other = ([Map_loop], SetDiff ks s other)
    \<and> SymDiff_traced ks ko s other = ([Map_loop, Range_call], SymDiff ks ko s other)
    \<and> Slice ks s = Slice_by_Range ks s
    \<and> set (Slice ks s) = set (Slice_by_Range ks' s)
    \<and> Intersect ks s other = Intersect_by_Range ks' s other
    \<and> Union ks ko s other = Union_by_Range ks' ko' s other
    \<and> SetDiff ks s other = SetDiff_by_Range ks' s other
    \<and> SymDiff ks ko s other = SymDiff_by_Range ks' ko' s other
    \<and> set (Slice ks s) = dom s
    \<and> Has (Intersect ks s other) v = (Has s v \<and> Has other v)
    \<and> Has (Union ks ko s other) v = (Has s v \<or> Has other v)
    \<and> Has (SetDiff ks s other) v = (Has s v \<and> \<not> Has other v)
    \<and> Has (SymDiff ks ko s other) v = (Has s v \<noteq> Has other v)"
proof -
  have members: "set (Slice ks s) = dom s"
    "Has (Intersect ks s other) v = (Has s v \<and> Has other v)"
    "Has (Union ks ko s other) v = (Has s v \<or> Has other v)"
    "Has (SetDiff ks s other) v = (Has s v \<and> \<not> Has other v)"
    "Has (SymDiff ks ko s other) v = (Has s v \<noteq> Has other v)"
    using assms(1,3)
    by (auto simp: Slice_eq Has_dom dom_Intersect dom_Union dom_SetDiff dom_SymDiff
        range_order_def)
  show ?thesis
    using order_irrelevant [OF assms] members
    by (simp add: traced_results traced_results2 by_Range_same_order by_Range_same_order2)
qed

theorem receiver_looped_operand_ranged_witness:
  "range_order [1, 2, 3] A123 \<and> range_order [3, 1, 2] A123
   \<and> range_order [5, 4, 3] B345 \<and> range_order [4, 3, 5] B345
   \<and> Slice_traced [1, 2, 3] A123 = ([Map_loop], Slice [1, 2, 3] A123)
   \<and> Union_traced [1, 2, 3] [5, 4, 3] A123 B345
       = ([Map_loop, Range_call], Union [1, 2, 3] [5, 4, 3] A123 B345)
   \<and> Union [1, 2, 3] [5, 4, 3] A123 B345 = Union_by_Range [3, 1, 2] [4, 3, 5] A123 B345
   \<and> Intersect [1, 2, 3] A123 B345 = Intersect_by_Range [3, 1, 2] A123 B345
   \<and> SetDiff [1, 2, 3] A123 B345 = SetDiff_by_Range [3, 1, 2] A123 B345
   \<and> SymDiff [1, 2, 3] [5, 4, 3] A123 B345 = SymDiff_by_Range [3, 1, 2] [4, 3, 5] A123 B345
   \<and> \<not> Has A123 5 \<and> Has B345 5
   \<and> Has (Union [1, 2, 3] [5, 4, 3] A123 B345) 5
   \<and> Has (SymDiff [1, 2, 3] [5, 4, 3] A123 B345) 5
   \<and> \<not> Has (Intersect [1, 2, 3] A123 B345) 5"
proof -
  have h: "\<not> Has A123 5" "Has B345 5"
    by (simp_all add: Has_def A123_def B345_def)
  show ?thesis
    using h orders_A123 orders_B345
      receiver_looped_operand_ranged
        [OF orders_A123(1) orders_A123(2) orders_B345(1) orders_B345(2), of 5]
    by blast
qed

text \<open>
  The methods are not built on \<open>Range\<close> alone: each of them makes a loop over the map of
  its receiver.
\<close>

theorem built_on_Range_counterexample:
  "fst (Slice_traced [1, 2, 3] A123) = [Map_loop]
   \<and> \<not> only_Range (fst (Slice_traced [1, 2, 3] A123))
   \<and> fst (Intersect_traced [1, 2, 3] A123 B345) = [Map_loop]
   \<and> \<not> only_Range (fst (Intersect_traced [1, 2, 3] A123 B345))
   \<and> fst (Union_traced [1, 2, 3] [5, 4, 3] A123 B345) = [Map_loop, Range_call]
   \<and> \<not> only_Range (fst (Union_traced [1, 2, 3] [5, 4, 3] A123 B345))
   \<and> fst (SetDiff_traced [1, 2, 3] A123 B345) = [Map_loop]
   \<and> \<not> only_Range (fst (SetDiff_traced [1, 2, 3] A123 B345))
   \<and> fst (SymDiff_traced [1, 2, 3] [5, 4, 3] A123 B345) = [Map_loop, Range_call]
   \<and> \<not> only_Range (fst (SymDiff_traced [1, 2, 3] [5, 4, 3] A123 B345))"
  by (simp add: Slice_traced_def Intersect_traced_def Union_traced_def Clone_traced_def
      AddSet_traced_def SetDiff_traced_def SymDiff_traced_def map_loop_def Range_traced_def
      only_Range_def case_prod_beta)

section \<open>The two packages agree\<close>

lemma typ_same_order:
  "typ_Clone ks s = Clone ks s"
  "typ_Slice ks s = Slice ks s"
  "typ_Intersect ks s other = Intersect ks s other"
  "typ_SetDiff ks s other = SetDiff ks s other"
  "typ_Union ks ko s other = Union ks ko s other"
  "typ_SymDiff ks ko s other = SymDiff ks ko s other"
  by (simp_all add: typ_Clone_def Clone_def typ_Slice_def Slice_def typ_Intersect_def
      Intersect_def typ_SetDiff_def SetDiff_def typ_Union_def Union_def typ_SymDiff_def
      SymDiff_def typ_Has_eq typ_Set_eq AddSet_fold Range_continue cong: if_cong)

text \<open>
  C10. On the same set, the methods of package typ and those of package maps return the
  same booleans and the same set after \<open>Has\<close>, \<open>Set\<close>/\<open>Add\<close> and \<open>Unset\<close>/\<open>Remove\<close>;
  \<open>Clone\<close>, \<open>Intersect\<close>, \<open>Union\<close>, \<open>SetDiff\<close> and \<open>SymDiff\<close> return the same set and
  \<open>Slice\<close> the same members, whatever orders the loops of the two take.
\<close>

theorem implementations_agree:
  assumes "range_order ks s" and "range_order ks' s"
    and "range_order ko other" and "range_order ko' other"
  shows "typ_Has s v = Has s v
    \<and> typ_Set s v = Add s v
    \<and> typ_Unset s v = Remove s v
    \<and> typ_Clone ks s = Clone ks' s
    \<and> set (typ_Slice ks s) = set (Slice ks' s)
    \<and> typ_Slice ks s = Slice ks s
    \<and> typ_Intersect ks s other = Intersect ks' s other
    \<and> typ_Union ks ko s other = Union ks' ko' s other
    \<and> typ_SetDiff ks s other = SetDiff ks' s other
    \<and> typ_SymDiff ks ko s other = SymDiff ks' ko' s other"
  using order_irrelevant [OF assms]
  by (simp add: typ_same_order typ_Has_eq typ_Set_eq typ_Unset_eq)

theorem implementations_agree_witness:
  "range_order [1, 2, 3] A123 \<and> range_order [3, 1, 2] A123
   \<and> range_order [5, 4, 3] B345 \<and> range_order [4, 3, 5] B345
   \<and> typ_Has A123 4 = Has A123 4
   \<and> typ_Set A123 4 = Add A123 4
   \<and> typ_Unset A123 4 = Remove A123 4
   \<and> typ_Clone [1, 2, 3] A123 = Clone [3, 1, 2] A123
   \<and> set (typ_Slice [1, 2, 3] A123) = set (Slice [3, 1, 2] A123)
   \<and> typ_Intersect [1, 2, 3] A123 B345 = Intersect [3, 1, 2] A123 B345
   \<and> typ_Union [1, 2, 3] [5, 4, 3] A123 B345 = Union [3, 1, 2] [4, 3, 5] A123 B345
   \<and> typ_SetDiff [1, 2, 3] A123 B345 = SetDiff [3, 1, 2] A123 B345
   \<and> typ_SymDiff [1, 2, 3] [5, 4, 3] A123 B345 = SymDiff [3, 1, 2] [4, 3, 5] A123 B345"
  using orders_A123 orders_B345
    implementations_agree [OF orders_A123(1) orders_A123(2) orders_B345(1) orders_B345(2), of 4]
  by blast

section \<open>The Cartesian product\<close>

lemma dom_CartesianProduct_inner:
  "dom (fold (\<lambda>valueB result. snd (typ_Set result \<lparr>A = x, B = valueB\<rparr>)) ys acc)
     = dom acc \<union> (\<lambda>y. \<lparr>A = x, B = y\<rparr>) ` set ys"
  by (induction ys arbitrary: acc) (auto simp: typ_Set_eq dom_Add)

lemma dom_CartesianProduct_outer:
  "dom (fold (\<lambda>valueA result.
             fold (\<lambda>valueB result. snd (typ_Set result \<lparr>A = valueA, B = valueB\<rparr>))
               (kb valueA) result) xs acc)
     = dom acc \<union> (\<Union>x\<in>set xs. (\<lambda>y. \<lparr>A = x, B = y\<rparr>) ` set (kb x))"
  by (induction xs arbitrary: acc) (auto simp: dom_CartesianProduct_inner)

lemma dom_CartesianProduct:
  assumes "range_order ka a" and "\<forall>x\<in>dom a. range_order (kb x) b"
  shows "dom (CartesianProduct ka kb a b) = (\<lambda>(x, y). \<lparr>A = x, B = y\<rparr>) ` (dom a \<times> dom b)"
  using assms
  by (auto simp: CartesianProduct_def dom_CartesianProduct_outer dom_make range_order_def)

text \<open>
  C5. \<open>CartesianProduct a b\<close> holds the pair of \<open>x\<close> and \<open>y\<close> exactly when \<open>a\<close> holds \<open>x\<close>
  and \<open>b\<close> holds \<open>y\<close>; its keys are those pairs, and their number is the product of the
  numbers of keys of \<open>a\<close> and \<open>b\<close>. The set of package typ has no method \<open>Len\<close>: the
  number of its keys is the built-in \<open>len\<close>, which is also what \<open>Len\<close> of package maps
  returns.
\<close>

theorem CartesianProduct_card:
  assumes "range_order ka a" and "\<forall>x\<in>dom a. range_order (kb x) b"
  shows "typ_Has (CartesianProduct ka kb a b) \<lparr>A = x, B = y\<rparr> = (typ_Has a x \<and> typ_Has b y)
    \<and> dom (CartesianProduct ka kb a b) = {\<lparr>A = x, B = y\<rparr> | x y. x \<in> dom a \<and> y \<in> dom b}
    \<and> len (CartesianProduct ka kb a b) = len a * len b"
proof (intro conjI)
  note d = dom_CartesianProduct [OF assms]
  show "typ_Has (CartesianProduct ka kb a b) \<lparr>A = x, B = y\<rparr> = (typ_Has a x \<and> typ_Has b y)"
    by (auto simp: typ_Has_dom d)
  show "dom (CartesianProduct ka kb a b) = {\<lparr>A = x, B = y\<rparr> | x y. x \<in> dom a \<and> y \<in> dom b}"
    by (auto simp: d)
  have "inj_on (\<lambda>(x, y). \<lparr>A = x, B = y\<rparr>) (dom a \<times> dom b)"
    by (auto simp: inj_on_def)
  then show "len (CartesianProduct ka kb a b) = len a * len b"
    by (simp add: len_def d card_image card_cartesian_product)
qed

theorem CartesianProduct_card_witness:
  "range_order [3, 1, 2] A123
   \<and> range_order (inner_orders 1) Babc \<and> range_order (inner_orders 2) Babc
   \<and> range_order (inner_orders 3) Babc
   \<and> typ_Has (CartesianProduct [3, 1, 2] inner_orders A123 Babc) \<lparr>A = 2, B = CHR ''b''\<rparr>
   \<and> \<not> typ_Has (CartesianProduct [3, 1, 2] inner_orders A123 Babc) \<lparr>A = 4, B = CHR ''b''\<rparr>
   \<and> len A123 = 3 \<and> len Babc = 3
   \<and> len (CartesianProduct [3, 1, 2] inner_orders A123 Babc) = 9"
proof -
  have o: "range_order (inner_orders 1) Babc" "range_order (inner_orders 2) Babc"
    "range_order (inner_orders 3) Babc"
    by (auto simp: range_order_def inner_orders_def Babc_def)
  then have all: "\<forall>x\<in>dom A123. range_order (inner_orders x) Babc"
    by (simp add: A123_def)
  have l: "len A123 = 3" "len Babc = 3"
    by (simp_all add: len_def A123_def Babc_def)
  have h: "typ_Has A123 2" "\<not> typ_Has A123 4" "typ_Has Babc CHR ''b''"
    by (simp_all add: typ_Has_def A123_def Babc_def)
  show ?thesis
    using o l h orders_A123(2)
      CartesianProduct_card [OF orders_A123(2) all, of 2 "CHR ''b''"]
      CartesianProduct_card [OF orders_A123(2) all, of 4 "CHR ''b''"]
    by simp
qed

section \<open>Fresh results and untouched operands\<close>

lemma Has_ref_eq: "Has_ref h s v = Has (h ! s) v"
  by (simp add: Has_ref_def Has_def)

lemma Add_ref_eq: "snd (Add_ref h c v) = h[c := snd (Add (h ! c) v)]"
  by (simp add: Add_ref_def Add_def Has_ref_eq)

lemma Remove_ref_eq: "snd (Remove_ref h c v) = h[c := snd (Remove (h ! c) v)]"
  by (simp add: Remove_ref_def Remove_def Has_ref_eq)

lemma fold_Add_ref_if:
  assumes "c < length h"
    and "\<And>h' v. length h' = length h \<Longrightarrow> (\<forall>r. r \<noteq> c \<longrightarrow> h' ! r = h ! r) \<Longrightarrow> cond h' v = p v"
  shows "fold (\<lambda>v h. if cond h v then snd (Add_ref h c v) else h) ks h
     = h[c := fold (\<lambda>v m. if p v then snd (Add m v) else m) ks (h ! c)]"
  using assms
proof (induction ks arbitrary: h)
  case Nil
  then show ?case by simp
next
  case (Cons k ks)
  define m where "m = (if p k then snd (Add (h ! c) k) else h ! c)"
  have c: "cond h k = p k"
    using Cons.prems(2) [of h k] by simp
  have step: "(if cond h k then snd (Add_ref h c k) else h) = h[c := m]"
    by (simp add: c m_def Add_ref_eq)
  have "fold (\<lambda>v h. if cond h v then snd (Add_ref h c v) else h) ks (h[c := m])
      = (h[c := m])[c := fold (\<lambda>v m. if p v then snd (Add m v) else m) ks ((h[c := m]) ! c)]"
  proof (rule Cons.IH)
    show "c < length (h[c := m])"
      using Cons.prems(1) by simp
    fix h' v
    assume "length h' = length (h[c := m])" and "\<forall>r. r \<noteq> c \<longrightarrow> h' ! r = h[c := m] ! r"
    then show "cond h' v = p v"
      using Cons.prems(2) [of h' v] by simp
  qed
  then show ?case
    using Cons.prems(1) by (simp add: step m_def)
qed

lemma Intersect_ref_eq:
  assumes "other < length h"
  shows "Intersect_ref ks h s other = (length h, h @ [Intersect ks (h ! s) (h ! other)])"
proof -
  have "fold (\<lambda>v h'. if Has_ref h' other v then snd (Add_ref h' (length h) v) else h') ks
          (h @ [make_Set])
        = (h @ [make_Set])[length h :=
            fold (\<lambda>v m. if Has (h ! other) v then snd (Add m v) else m) ks
              ((h @ [make_Set]) ! length h)]"
    using assms
    by (intro fold_Add_ref_if) (auto simp: Has_ref_eq nth_append)
  then show ?thesis
    by (simp add: Intersect_ref_def make_ref_def Intersect_def)
qed


lemma SetDiff_ref_eq:
  assumes "other < length h"
  shows "SetDiff_ref ks h s other = (length h, h @ [SetDiff ks (h ! s) (h ! other)])"
proof -
  have "fold (\<lambda>v h'. if \<not> Has_ref h' other v then snd (Add_ref h' (length h) v) else h') ks
          (h @ [make_Set])
        = (h @ [make_Set])[length h :=
            fold (\<lambda>v m. if \<not> Has (h ! other) v then snd (Add m v) else m) ks
              ((h @ [make_Set]) ! length h)]"
    using assms
    by (intro fold_Add_ref_if) (auto simp: Has_ref_eq nth_append)
  then show ?thesis
    by (simp add: SetDiff_ref_def make_ref_def SetDiff_def)
qed

lemma fold_Add_ref:
  assumes "c < length h"
  shows "fold (\<lambda>y h. snd (Add_ref h c (f y))) ys h
     = h[c := fold (\<lambda>y m. snd (Add m (f y))) ys (h ! c)]"
  using assms by (induction ys arbitrary: h) (simp_all add: Add_ref_eq)

lemma Clone_ref_eq: "Clone_ref ks h s = (length h, h @ [Clone ks (h ! s)])"
  using fold_Add_ref [of "length h" "h @ [make_Set]" "\<lambda>v. v" ks]
  by (simp add: Clone_ref_def make_ref_def Clone_def)

lemma AddSet_ref_eq:
  assumes "c < length h"
  shows "snd (AddSet_ref h c ko other) = h[c := snd (AddSet (h ! c) ko x)]"
proof -
  have "fst (Range ko m
        (\<lambda>v (h, added). case Add_ref h c v of
           (ok, h') \<Rightarrow> (True, (h', if ok then added + 1 else added)))
        (h, n)) = fold (\<lambda>v h. snd (Add_ref h c v)) ko h" for n :: nat and m and h :: "'a heap"
    by (induction ko arbitrary: h n) (simp_all add: case_prod_beta)
  then have "snd (AddSet_ref h c ko other) = fold (\<lambda>v h. snd (Add_ref h c v)) ko h"
    by (simp add: AddSet_ref_def case_prod_beta)
  then show ?thesis
    using fold_Add_ref [OF assms, of "\<lambda>v. v" ko] by (simp add: AddSet_fold)
qed

lemma Union_ref_eq:
  "Union_ref ks ko h s other = (length h, h @ [Union ks ko (h ! s) (h ! other)])"
  using AddSet_ref_eq [of "length h" "h @ [Clone ks (h ! s)]" ko other "h ! other"]
  by (simp add: Union_ref_def Clone_ref_eq Union_def)

lemma SymDiff_ref_eq:
  assumes "s < length h" and "other < length h"
  shows "SymDiff_ref ks ko h s other = (length h, h @ [SymDiff ks ko (h ! s) (h ! other)])"
proof -
  define d where "d = SetDiff ks (h ! s) (h ! other)"
  have "fold (\<lambda>v h'. if \<not> Has_ref h' s v then snd (Add_ref h' (length h) v) else h') ko
          (h @ [d])
        = (h @ [d])[length h :=
            fold (\<lambda>v m. if \<not> Has (h ! s) v then snd (Add m v) else m) ko
              ((h @ [d]) ! length h)]"
    using assms
    by (intro fold_Add_ref_if) (auto simp: Has_ref_eq nth_append)
  then show ?thesis
    using assms
    by (simp add: SymDiff_ref_def SetDiff_ref_eq SymDiff_def Range_continue d_def
        cong: if_cong)
qed

lemma typ_Set_ref_eq: "typ_Set_ref h c v = Add_ref h c v"
  by (simp add: typ_Set_ref_def typ_Has_ref_def Add_ref_def Has_ref_def)

lemma CartesianProduct_ref_eq:
  "CartesianProduct_ref ka kb hp a b = (length hp, hp @ [CartesianProduct ka kb a b])"
proof -
  have outer: "fold (\<lambda>x h. fold (\<lambda>y h. snd (Add_ref h c (f x y))) (kb x) h) xs h
      = h[c := fold (\<lambda>x m. fold (\<lambda>y m. snd (Add m (f x y))) (kb x) m) xs (h ! c)]"
    if "c < length h" for c xs f and h :: "('a, 'b) SetProduct heap"
    using that by (induction xs arbitrary: h) (simp_all add: fold_Add_ref)
  show ?thesis
    using outer [of "length hp" "hp @ [make_Set]" "\<lambda>x y. \<lparr>A = x, B = y\<rparr>" ka]
    by (simp add: CartesianProduct_ref_def make_ref_def CartesianProduct_def
        typ_Set_ref_eq typ_Set_eq)
qed

lemma run_ref_eq: "run_ref h r ops = h[r := run (h ! r) ops]"
proof (induction ops arbitrary: h)
  case Nil
  then show ?case by (simp add: run_ref_def run_def)
next
  case (Cons x ops)
  have step: "run_ref h r (x # ops) = run_ref (apply_operation_ref r h x) r ops"
    by (simp add: run_ref_def)
  have pure: "run m (x # ops) = run (apply_operation m x) ops" for m :: "'a Set"
    by (simp add: run_def)
  show ?case
  proof (cases "r < length h")
    case True
    then show ?thesis
      unfolding step Cons.IH pure by (cases x) (simp_all add: Add_ref_eq Remove_ref_eq)
  next
    case False
    then show ?thesis
      unfolding step Cons.IH pure
      by (cases x) (simp_all add: Add_ref_eq Remove_ref_eq list_update_beyond)
  qed
qed

lemma fresh_result_append: "fresh_result h (length h, h @ [m])"
  by (simp add: fresh_result_def)

lemma operands_unchanged_append:
  "s < length h \<Longrightarrow> other < length h \<Longrightarrow> operands_unchanged h s other (r, h @ [m])"
  by (simp add: operands_unchanged_def nth_append)

text \<open>
  C7. \<open>Union\<close>, \<open>Intersect\<close>, \<open>SetDiff\<close>, \<open>SymDiff\<close> and \<open>CartesianProduct\<close> return a
  map that the call has allocated and leave every map that existed as it was: both
  operands, also when the two are one map, and for \<open>CartesianProduct\<close> every map of
  pairs; its operands are maps of other element types, which it only reads.
  \<open>Clone\<close> returns a new map with the members of the original; whatever is then added
  to or removed from the clone, the original keeps its members, and the other way round.
\<close>

theorem results_fresh:
  assumes "s < length h" and "other < length h" and "range_order ks (h ! s)"
  shows "fresh_result h (Union_ref ks ko h s other)
    \<and> operands_unchanged h s other (Union_ref ks ko h s other)
    \<and> fresh_result h (Intersect_ref ks h s other)
    \<and> operands_unchanged h s other (Intersect_ref ks h s other)
    \<and> fresh_result h (SetDiff_ref ks h s other)
    \<and> operands_unchanged h s other (SetDiff_ref ks h s other)
    \<and> fresh_result h (SymDiff_ref ks ko h s other)
    \<and> operands_unchanged h s other (SymDiff_ref ks ko h s other)
    \<and> fresh_result hp (CartesianProduct_ref ka kb hp a b)
    \<and> fresh_result h (Clone_ref ks h s)
    \<and> snd (Clone_ref ks h s) ! fst (Clone_ref ks h s) = h ! s
    \<and> snd (Clone_ref ks h s) ! s = h ! s
    \<and> run_ref (snd (Clone_ref ks h s)) (fst (Clone_ref ks h s)) ops ! s = h ! s
    \<and> run_ref (snd (Clone_ref ks h s)) (fst (Clone_ref ks h s)) ops ! fst (Clone_ref ks h s)
        = run (h ! s) ops
    \<and> run_ref (snd (Clone_ref ks h s)) s ops ! fst (Clone_ref ks h s) = h ! s
    \<and> run_ref (snd (Clone_ref ks h s)) s ops ! s = run (h ! s) ops"
proof -
  have clone: "Clone ks (h ! s) = h ! s"
    using assms(3) by (intro unit_map_eqI) (simp add: dom_Clone range_order_def)
  show ?thesis
    using assms(1,2)
    by (simp add: Union_ref_eq Intersect_ref_eq SetDiff_ref_eq SymDiff_ref_eq
        CartesianProduct_ref_eq Clone_ref_eq fresh_result_append operands_unchanged_append
        run_ref_eq clone nth_append)
qed

theorem results_fresh_witness:
  "(0::nat) < length [A123, B345] \<and> (1::nat) < length [A123, B345]
   \<and> range_order [3, 1, 2] ([A123, B345] ! 0)
   \<and> fresh_result [A123, B345] (Union_ref [3, 1, 2] [5, 4, 3] [A123, B345] 0 1)
   \<and> operands_unchanged [A123, B345] 0 1 (Union_ref [3, 1, 2] [5, 4, 3] [A123, B345] 0 1)
   \<and> fresh_result [A123, B345] (Intersect_ref [3, 1, 2] [A123, B345] 0 1)
   \<and> operands_unchanged [A123, B345] 0 1 (Intersect_ref [3, 1, 2] [A123, B345] 0 1)
   \<and> fresh_result [A123, B345] (SetDiff_ref [3, 1, 2] [A123, B345] 0 1)
   \<and> operands_unchanged [A123, B345] 0 1 (SetDiff_ref [3, 1, 2] [A123, B345] 0 1)
   \<and> fresh_result [A123, B345] (SymDiff_ref [3, 1, 2] [5, 4, 3] [A123, B345] 0 1)
   \<and> operands_unchanged [A123, B345] 0 1 (SymDiff_ref [3, 1, 2] [5, 4, 3] [A123, B345] 0 1)
   \<and> fresh_result [] (CartesianProduct_ref [3, 1, 2] inner_orders [] A123 Babc)
   \<and> fresh_result [A123, B345] (Clone_ref [3, 1, 2] [A123, B345] 0)
   \<and> snd (Clone_ref [3, 1, 2] [A123, B345] 0) ! fst (Clone_ref [3, 1, 2] [A123, B345] 0) = A123
   \<and> run_ref (snd (Clone_ref [3, 1, 2] [A123, B345] 0)) (fst (Clone_ref [3, 1, 2] [A123, B345] 0))
        [OpAdd 9, OpRemove 1] ! 0 = A123
   \<and> run_ref (snd (Clone_ref [3, 1, 2] [A123, B345] 0)) 0 [OpAdd 9, OpRemove 1]
        ! fst (Clone_ref [3, 1, 2] [A123, B345] 0) = A123"
proof -
  have 0: "(0::nat) < length [A123, B345]" and 1: "(1::nat) < length [A123, B345]"
    by simp_all
  have o: "range_order [3, 1, 2] ([A123, B345] ! 0)"
    using orders_A123(2) by simp
  show ?thesis
    using 0 1 o
      results_fresh [OF 0 1 o, of "[5, 4, 3]" "[]" "[3, 1, 2]" inner_orders A123 Babc
        "[OpAdd 9, OpRemove 1]"]
    by simp
qed

end
